theory Spec2Isabelle
  imports Main
begin

section \<open>Majority-voting ensemble of MedAID-ML\<close>

text \<open>
  The notebook \<^verbatim>\<open>src/medaidml/ensemble/mayority_voting.ipynb\<close> loads one
  prediction file per model, stacks the prediction columns into a matrix, reduces each
  column to its most frequent label and writes the consensus, a report and a confusion
  matrix.  The notebook's own code is a few lines; what it computes is decided by the
  library calls it makes (\<^verbatim>\<open>np.bincount\<close>, \<^verbatim>\<open>argmax\<close>,
  \<^verbatim>\<open>np.apply_along_axis\<close>, \<^verbatim>\<open>np.array\<close>, \<^verbatim>\<open>pd.read_csv\<close>,
  \<^verbatim>\<open>DataFrame.to_csv\<close>, \<^verbatim>\<open>confusion_matrix\<close>, \<^verbatim>\<open>os.path.join\<close>),
  so each of these is embedded with its documented behaviour, exceptions included.

  Labels are integers, modelled as \<^typ>\<open>int\<close>; the 64-bit range of numpy's integers
  and the limit on what \<^verbatim>\<open>np.bincount\<close> can allocate are written out where they
  decide a result.  An exception is a value \<open>Inl e\<close> of the result type.  The cells
  that find out where the notebook runs, change the working directory and create the
  output directories are left out: a file is addressed by the path the program builds
  for it.
\<close>

subsection \<open>Exceptions\<close>

datatype error = ValueError | KeyError | FileNotFoundError | TypeError | MemoryError

subsection \<open>numpy\<close>

text \<open>
  An array of integers is an int64 array when every entry fits 64 bits with a sign,
  which is what pandas and \<^verbatim>\<open>np.array\<close> make of such integers; with an entry
  outside that range the array has another dtype (uint64, float64 or object), and the
  empty array \<^verbatim>\<open>np.array([])\<close> is a float64 array.  A column cut from an array has
  the dtype of the array.
\<close>

definition fits_int64 :: "int \<Rightarrow> bool" where
  "fits_int64 v \<longleftrightarrow> - (2 ^ 63) \<le> v \<and> v < 2 ^ 63"

definition int64_array :: "int list list \<Rightarrow> bool" where
  "int64_array arr \<longleftrightarrow> arr \<noteq> [] \<and> list_all (list_all fits_int64) arr"

text \<open>
  \<^verbatim>\<open>np.bincount(x)\<close>.  It casts \<open>x\<close> to int64 under the rule \<open>safe\<close>: TypeError
  when the dtype of \<open>x\<close> is not int64 (\<open>dtype_int64\<close> is false).  It raises ValueError
  when \<open>x\<close> has a negative element.  Otherwise it allocates \<open>max(x) + 1\<close> bins of
  64 bits (none for an empty \<open>x\<close>) and bin \<open>k\<close> holds the number of occurrences of \<open>k\<close>
  in \<open>x\<close>.  The allocation fails with ValueError when the size of the bins in bytes
  does not fit the signed 64-bit size of an array, that is from \<open>2 ^ 60\<close> bins on (the
  number of bins itself overflows for the label \<open>2 ^ 63 - 1\<close>), and with MemoryError
  when the machine has no room for the bins.  How many bins the machine has room for is
  not fixed by the program: it is the parameter \<open>max_bins\<close>.
\<close>

definition bincount :: "nat \<Rightarrow> bool \<Rightarrow> int list \<Rightarrow> error + nat list" where
  "bincount max_bins dtype_int64 x =
     (if \<not> dtype_int64 then Inl TypeError
      else if list_ex (\<lambda>v. v < 0) x then Inl ValueError
      else case x of
             [] \<Rightarrow> Inr []
           | v # vs \<Rightarrow>
               let ans_size = nat (fold max vs v) + 1
               in if 2 ^ 60 \<le> ans_size then Inl ValueError
                  else if max_bins < ans_size then Inl MemoryError
                  else Inr (map (\<lambda>k. count_list x (int k)) [0..<ans_size]))"

text \<open>
  \<^verbatim>\<open>a.argmax()\<close>: raises ValueError on an empty array; otherwise scans the array
  once from the left and keeps the index of the first element that is strictly greater
  than everything before it, so that of several maximal elements the first one wins.
  \<open>argmax_loop vs i bi bv\<close> is the scan at position \<open>i\<close> with best index \<open>bi\<close> and best
  value \<open>bv\<close> so far.
\<close>

fun argmax_loop :: "nat list \<Rightarrow> nat \<Rightarrow> nat \<Rightarrow> nat \<Rightarrow> nat" where
  "argmax_loop [] i bi bv = bi"
| "argmax_loop (v # vs) i bi bv =
     (if bv < v then argmax_loop vs (Suc i) i v else argmax_loop vs (Suc i) bi bv)"

definition argmax :: "nat list \<Rightarrow> error + nat" where
  "argmax a = (case a of [] \<Rightarrow> Inl ValueError | v # vs \<Rightarrow> Inr (argmax_loop vs 1 0 v))"

text \<open>
  The function the notebook applies to every column:
  \<^verbatim>\<open>lambda x: np.bincount(x).argmax()\<close>.
\<close>

definition column_vote :: "nat \<Rightarrow> bool \<Rightarrow> int list \<Rightarrow> error + int" where
  "column_vote max_bins dtype_int64 x =
     (case bincount max_bins dtype_int64 x of
        Inl e \<Rightarrow> Inl e
      | Inr counts \<Rightarrow> (case argmax counts of Inl e \<Rightarrow> Inl e | Inr k \<Rightarrow> Inr (int k)))"

text \<open>
  A two-dimensional array is the list of its rows.  \<^verbatim>\<open>np.array(rows)\<close> raises
  ValueError when the rows differ in length (numpy 1.24 and later; the project
  requires Python 3.13), and \<^verbatim>\<open>np.array([])\<close> is the empty one-dimensional array,
  here the empty list of rows.
\<close>

definition np_array :: "int list list \<Rightarrow> error + int list list" where
  "np_array rows =
     (case rows of
        [] \<Rightarrow> Inr []
      | r # rs \<Rightarrow> if list_all (\<lambda>r'. length r' = length r) rs then Inr rows else Inl ValueError)"

text \<open>Column \<open>j\<close> of an array with more than \<open>j\<close> columns.\<close>

definition column :: "int list list \<Rightarrow> nat \<Rightarrow> int list" where
  "column arr j = map (\<lambda>row. row ! j) arr"

text \<open>Calls in sequence; the first exception ends the sequence.\<close>

fun traverse :: "('a \<Rightarrow> error + 'b) \<Rightarrow> 'a list \<Rightarrow> error + 'b list" where
  "traverse f [] = Inr []"
| "traverse f (x # xs) =
     (case f x of
        Inl e \<Rightarrow> Inl e
      | Inr y \<Rightarrow> (case traverse f xs of Inl e \<Rightarrow> Inl e | Inr ys \<Rightarrow> Inr (y # ys)))"

text \<open>
  \<^verbatim>\<open>np.apply_along_axis(func1d, axis=0, arr=arr)\<close> for a function that returns a
  scalar.  On an array of shape \<open>(M, N)\<close> it calls \<open>func1d\<close> on column \<open>0\<close>, then on
  columns \<open>1\<close> to \<open>N - 1\<close>, and collects the \<open>N\<close> results; with \<open>N = 0\<close> it raises
  ValueError (``Cannot apply_along_axis when any iteration dimensions are 0'').  On the
  empty one-dimensional array it calls \<open>func1d\<close> once, on the empty array.
\<close>

definition apply_along_axis :: "(int list \<Rightarrow> error + int) \<Rightarrow> int list list \<Rightarrow> error + int list" where
  "apply_along_axis func1d arr =
     (case arr of
        [] \<Rightarrow> (case func1d [] of Inl e \<Rightarrow> Inl e | Inr v \<Rightarrow> Inr [v])
      | row # _ \<Rightarrow>
          if row = [] then Inl ValueError
          else traverse func1d (map (column arr) [0..<length row]))"

definition majority_voting :: "nat \<Rightarrow> int list list \<Rightarrow> error + int list" where
  "majority_voting max_bins predictions =
     apply_along_axis (column_vote max_bins (int64_array predictions)) predictions"

text \<open>An array has shape \<open>(M, N)\<close>: \<open>M\<close> rows of \<open>N\<close> entries each.\<close>

definition has_shape :: "int list list \<Rightarrow> nat \<Rightarrow> nat \<Rightarrow> bool" where
  "has_shape arr M N \<longleftrightarrow> length arr = M \<and> list_all (\<lambda>row. length row = N) arr"

definition nonneg_entries :: "int list list \<Rightarrow> bool" where
  "nonneg_entries arr \<longleftrightarrow> list_all (list_all (\<lambda>v. 0 \<le> v)) arr"

definition binary_entries :: "int list list \<Rightarrow> bool" where
  "binary_entries arr \<longleftrightarrow> list_all (list_all (\<lambda>v. v = 0 \<or> v = 1)) arr"

text \<open>
  The number of bins that \<^verbatim>\<open>np.bincount\<close> can allocate, and the arrays whose labels
  are all below it: the largest label needs one bin more than its value.
\<close>

definition bins_limit :: "nat \<Rightarrow> nat" where
  "bins_limit max_bins = min max_bins (2 ^ 60 - 1)"

definition labels_fit :: "nat \<Rightarrow> int list list \<Rightarrow> bool" where
  "labels_fit max_bins arr \<longleftrightarrow> list_all (list_all (\<lambda>v. v < int (bins_limit max_bins))) arr"

subsection \<open>Integers as text\<close>

text \<open>
  \<^verbatim>\<open>str(n)\<close> of a Python integer, which is also what \<^verbatim>\<open>to_csv\<close> writes for an
  integer cell: the decimal digits, after a minus sign for a negative number.
\<close>

definition digit_char :: "nat \<Rightarrow> char" where
  "digit_char d = char_of (48 + d)"

fun str_nat :: "nat \<Rightarrow> string" where
  "str_nat n = (if n < 10 then [digit_char n] else str_nat (n div 10) @ [digit_char (n mod 10)])"

declare str_nat.simps [simp del]

definition str_int :: "int \<Rightarrow> string" where
  "str_int i = (if i < 0 then CHR ''-'' # str_nat (nat (- i)) else str_nat (nat i))"

text \<open>
  Reading an integer cell: an optional minus sign and at least one decimal digit.
  Anything else is not an integer cell (\<open>None\<close>).
\<close>

definition is_digit :: "char \<Rightarrow> bool" where
  "is_digit c \<longleftrightarrow> 48 \<le> (of_char c :: nat) \<and> (of_char c :: nat) \<le> 57"

definition digit_val :: "char \<Rightarrow> nat" where
  "digit_val c = of_char c - 48"

definition parse_nat :: "string \<Rightarrow> nat option" where
  "parse_nat s =
     (if s \<noteq> [] \<and> list_all is_digit s then Some (fold (\<lambda>c n. 10 * n + digit_val c) s 0)
      else None)"

definition parse_int :: "string \<Rightarrow> int option" where
  "parse_int s =
     (case s of
        [] \<Rightarrow> None
      | c # cs \<Rightarrow>
          if c = CHR ''-'' then map_option (\<lambda>n. - int n) (parse_nat cs)
          else map_option int (parse_nat s))"

subsection \<open>Files and paths\<close>

text \<open>
  The file system is a map from a path, as the program spells it, to the text of the
  file.  \<^verbatim>\<open>os.path.join\<close> (POSIX): a component that starts with a slash replaces what
  was joined so far; otherwise it is appended, after a slash unless the path so far is
  empty or ends with one.
\<close>

type_synonym files = "string \<rightharpoonup> string"

definition join_component :: "string \<Rightarrow> string \<Rightarrow> string" where
  "join_component b path =
     (if b \<noteq> [] \<and> hd b = CHR ''/'' then b
      else if path = [] \<or> last path = CHR ''/'' then path @ b
      else path @ ''/'' @ b)"

definition os_path_join :: "string \<Rightarrow> string list \<Rightarrow> string" where
  "os_path_join a p = fold join_component p a"

subsection \<open>pandas\<close>

text \<open>
  A DataFrame: the row labels (\<open>None\<close> for the default index \<open>0, 1, \<dots>\<close>), the column
  names, and the rows of cells.  A cell is kept as the text that stands for it in a CSV
  file; \<open>getitem_values\<close> below reads a column as integers.  CSV quoting is not
  modelled: no name, label or cell of this program contains a comma, a quote or a line
  break.
\<close>

record DataFrame =
  df_index :: "string list option"
  df_columns :: "string list"
  df_rows :: "string list list"

definition newline :: char where
  "newline = CHR 0x0A"

fun split_on :: "char \<Rightarrow> string \<Rightarrow> string list" where
  "split_on sep [] = [[]]"
| "split_on sep (c # cs) =
     (if c = sep then [] # split_on sep cs
      else (case split_on sep cs of [] \<Rightarrow> [[c]] | f # fs \<Rightarrow> (c # f) # fs))"

fun join_fields :: "string list \<Rightarrow> string" where
  "join_fields [] = []"
| "join_fields [f] = f"
| "join_fields (f # g # fs) = f @ CHR '','' # join_fields (g # fs)"

definition csv_text :: "string list list \<Rightarrow> string" where
  "csv_text records = concat (map (\<lambda>fields. join_fields fields @ [newline]) records)"

text \<open>
  \<^verbatim>\<open>pd.DataFrame(data, columns=columns)\<close> for a one-dimensional \<open>data\<close>: one column,
  so ValueError unless exactly one name is given.
\<close>

definition DataFrame_1d :: "int list \<Rightarrow> string list \<Rightarrow> error + DataFrame" where
  "DataFrame_1d data columns =
     (if length columns = 1
      then Inr \<lparr>df_index = None, df_columns = columns, df_rows = map (\<lambda>v. [str_int v]) data\<rparr>
      else Inl ValueError)"

text \<open>
  \<^verbatim>\<open>pd.DataFrame(data, index=index, columns=columns)\<close> for a two-dimensional \<open>data\<close>:
  ValueError unless \<open>data\<close> has one row for each index label and one column for each
  column name.
\<close>

definition DataFrame_2d :: "int list list \<Rightarrow> string list \<Rightarrow> string list \<Rightarrow> error + DataFrame" where
  "DataFrame_2d data index columns =
     (if length data = length index \<and> list_all (\<lambda>row. length row = length columns) data
      then Inr \<lparr>df_index = Some index, df_columns = columns, df_rows = map (map str_int) data\<rparr>
      else Inl ValueError)"

text \<open>
  \<^verbatim>\<open>df.to_csv(path, index=with_index)\<close>, as the text of the file written: a header
  line with the column names, then one line for each row; with the index, every line
  starts with one more field, empty in the header and the row label below.
\<close>

definition index_labels :: "DataFrame \<Rightarrow> string list" where
  "index_labels df =
     (case df_index df of
        None \<Rightarrow> map (\<lambda>k. str_int (int k)) [0..<length (df_rows df)]
      | Some labels \<Rightarrow> labels)"

definition to_csv :: "DataFrame \<Rightarrow> bool \<Rightarrow> string" where
  "to_csv df with_index =
     (if with_index
      then csv_text (([] # df_columns df) # map2 (#) (index_labels df) (df_rows df))
      else csv_text (df_columns df # df_rows df))"

text \<open>
  \<^verbatim>\<open>pd.read_csv(path)\<close>: FileNotFoundError for a missing file; blank lines are
  skipped; the first line names the columns; a file without one raises EmptyDataError
  and a row with more fields than the header raises ParserError (both are subclasses of
  ValueError); a row with fewer fields is filled up with empty cells.
\<close>

definition pad_row :: "nat \<Rightarrow> string list \<Rightarrow> string list" where
  "pad_row n row = row @ replicate (n - length row) []"

definition read_csv :: "files \<Rightarrow> string \<Rightarrow> error + DataFrame" where
  "read_csv fs path =
     (case fs path of
        None \<Rightarrow> Inl FileNotFoundError
      | Some text \<Rightarrow>
          (case filter (\<lambda>l. l \<noteq> []) (split_on newline text) of
             [] \<Rightarrow> Inl ValueError
           | header # lines \<Rightarrow>
               let columns = split_on CHR '','' header;
                   rows = map (split_on CHR '','') lines
               in if list_ex (\<lambda>row. length columns < length row) rows then Inl ValueError
                  else Inr \<lparr>df_index = None, df_columns = columns,
                            df_rows = map (pad_row (length columns)) rows\<rparr>))"

text \<open>
  \<^verbatim>\<open>df[name].values\<close> as an integer array: KeyError when there is no such column.
  The model covers integer columns, the only ones the program can work with; for a
  column with a cell that is not an integer the outcome is TypeError, which is what
  \<^verbatim>\<open>np.bincount\<close> raises for a prediction column of another type.
\<close>

fun index_of :: "string \<Rightarrow> string list \<Rightarrow> nat option" where
  "index_of name [] = None"
| "index_of name (c # cs) = (if c = name then Some 0 else map_option Suc (index_of name cs))"

definition cell :: "string list \<Rightarrow> nat \<Rightarrow> string" where
  "cell row j = (if j < length row then row ! j else [])"

fun those_ints :: "string list \<Rightarrow> int list option" where
  "those_ints [] = Some []"
| "those_ints (c # cs) =
     (case parse_int c of
        None \<Rightarrow> None
      | Some v \<Rightarrow> (case those_ints cs of None \<Rightarrow> None | Some vs \<Rightarrow> Some (v # vs)))"

definition getitem_values :: "DataFrame \<Rightarrow> string \<Rightarrow> error + int list" where
  "getitem_values df name =
     (case index_of name (df_columns df) of
        None \<Rightarrow> Inl KeyError
      | Some j \<Rightarrow>
          (case those_ints (map (\<lambda>row. cell row j) (df_rows df)) of
             None \<Rightarrow> Inl TypeError
           | Some vs \<Rightarrow> Inr vs))"

subsection \<open>scikit-learn\<close>

text \<open>
  \<^verbatim>\<open>confusion_matrix(y_true, y_pred)\<close> without a list of labels: ValueError when the
  two vectors differ in length; the classes are the distinct values of both vectors in
  ascending order, and entry \<open>(i, j)\<close> counts the samples of class \<open>i\<close> predicted as
  class \<open>j\<close>.
\<close>

definition unique_labels :: "int list \<Rightarrow> int list \<Rightarrow> int list" where
  "unique_labels y_true y_pred = sort (remdups (y_true @ y_pred))"

definition confusion_matrix :: "int list \<Rightarrow> int list \<Rightarrow> error + int list list" where
  "confusion_matrix y_true y_pred =
     (if length y_true \<noteq> length y_pred then Inl ValueError
      else let labels = unique_labels y_true y_pred
           in Inr (map (\<lambda>a. map (\<lambda>p. int (count_list (zip y_true y_pred) (a, p))) labels) labels))"

subsection \<open>The notebook\<close>

text \<open>The settings of the notebook.\<close>

definition preds_path :: "string list" where
  "preds_path =
     [''../ensembler/results/bert-base-multilingual-cased'',
      ''../ensembler/results/gpt2'',
      ''../ensembler/results/xlm-roberta-base'',
      ''../ensembler/results/fast_detect_gpt'',
      ''../ensembler/results/mdeberta-v3-base'',
      ''../ensembler/results/medical_mT5/'']"

definition experiments :: "int list" where
  "experiments = [1, 2, 3, 4, 5]"

definition pred_file_name :: string where
  "pred_file_name = ''results_no_dataleak.csv''"

definition all_models :: bool where
  "all_models = True"

definition SAVE :: bool where
  "SAVE = True"

text \<open>
  The three functions that save the results.  Each returns the file system with the
  file written; the lines they print are left out.
\<close>

definition save_ensemble_predictions :: "files \<Rightarrow> int list \<Rightarrow> string \<Rightarrow> error + files" where
  "save_ensemble_predictions fs ensembler_pred ensemble_file_name =
     (case DataFrame_1d ensembler_pred [''prediction''] of
        Inl e \<Rightarrow> Inl e
      | Inr df_ensemble \<Rightarrow>
          let file_predictions = ''../ensembler/predictions/'' @ ensemble_file_name @ ''.csv''
          in Inr (fs(file_predictions \<mapsto> to_csv df_ensemble False)))"

text \<open>
  The text of \<^verbatim>\<open>classification_report\<close> is made of rounded floating-point
  numbers and is not modelled: it is the parameter \<open>classification_report\<close>.
\<close>

definition save_ensemble_scores ::
  "(int list \<Rightarrow> int list \<Rightarrow> error + string) \<Rightarrow> files \<Rightarrow> int list \<Rightarrow> int list \<Rightarrow> string
     \<Rightarrow> error + files" where
  "save_ensemble_scores classification_report fs y_true ensembler_pred ensemble_file_name =
     (case classification_report y_true ensembler_pred of
        Inl e \<Rightarrow> Inl e
      | Inr score_en \<Rightarrow>
          let file_scores = ''../ensembler/scores/'' @ ensemble_file_name @ ''.txt''
          in Inr (fs(file_scores \<mapsto> score_en)))"

definition save_confusion_matrix :: "files \<Rightarrow> int list \<Rightarrow> int list \<Rightarrow> string \<Rightarrow> error + files" where
  "save_confusion_matrix fs y_true ensembler_pred ensemble_file_name =
     (case confusion_matrix y_true ensembler_pred of
        Inl e \<Rightarrow> Inl e
      | Inr cm \<Rightarrow>
          (case DataFrame_2d cm [''Actual 0'', ''Actual 1''] [''Predicted 0'', ''Predicted 1''] of
             Inl e \<Rightarrow> Inl e
           | Inr df_cm \<Rightarrow>
               let file_matrix = ''../ensembler/matrix/'' @ ensemble_file_name @ ''_matrix.csv''
               in Inr (fs(file_matrix \<mapsto> to_csv df_cm True))))"

text \<open>
  The inner loop of the last cell, over the remaining paths, with the two variables
  \<open>model_preds\<close> and \<open>y_true_loaded\<close> it updates.  The \<open>label\<close> column is looked up
  only while \<open>y_true_loaded\<close> is still \<open>None\<close>.
\<close>

fun load_models ::
  "files \<Rightarrow> int \<Rightarrow> string list \<Rightarrow> int list list \<times> int list option
     \<Rightarrow> error + int list list \<times> int list option" where
  "load_models fs experiment [] (model_preds, y_true_loaded) = Inr (model_preds, y_true_loaded)"
| "load_models fs experiment (path # paths) (model_preds, y_true_loaded) =
     (let file_path = os_path_join path [str_int experiment, pred_file_name]
      in case read_csv fs file_path of
           Inl e \<Rightarrow> Inl e
         | Inr df \<Rightarrow>
             (case getitem_values df ''Prediction'' of
                Inl e \<Rightarrow> Inl e
              | Inr predictions \<Rightarrow>
                  (case y_true_loaded of
                     None \<Rightarrow>
                       (case getitem_values df ''label'' of
                          Inl e \<Rightarrow> Inl e
                        | Inr labels \<Rightarrow>
                            load_models fs experiment paths
                              (model_preds @ [predictions], Some labels))
                   | Some y \<Rightarrow>
                       load_models fs experiment paths
                         (model_preds @ [predictions], y_true_loaded))))"

text \<open>
  The body of the outer loop for one experiment, and the outer loop.  With no path at
  all \<open>y_true_loaded\<close> would still be \<open>None\<close> after the inner loop, but then
  \<open>majority_voting\<close> has already raised.
\<close>

definition run_experiment ::
  "nat \<Rightarrow> (int list \<Rightarrow> int list \<Rightarrow> error + string) \<Rightarrow> files \<Rightarrow> int \<Rightarrow> error + files" where
  "run_experiment max_bins classification_report fs experiment =
     (case load_models fs experiment preds_path ([], None) of
        Inl e \<Rightarrow> Inl e
      | Inr (model_preds, y_true_loaded) \<Rightarrow>
          (case np_array model_preds of
             Inl e \<Rightarrow> Inl e
           | Inr all_predictions \<Rightarrow>
               (case majority_voting max_bins all_predictions of
                  Inl e \<Rightarrow> Inl e
                | Inr ensembler_pred \<Rightarrow>
                    let ensemble_file_name =
                          (if all_models then ''MV_ens_all_models_exp_'' @ str_int experiment
                           else ''MV_ens_no_mT5_'' @ str_int experiment)
                    in if SAVE
                       then (case y_true_loaded of
                               None \<Rightarrow> Inl TypeError
                             | Some y_true \<Rightarrow>
                                 (case save_ensemble_predictions fs ensembler_pred
                                         ensemble_file_name of
                                    Inl e \<Rightarrow> Inl e
                                  | Inr fs1 \<Rightarrow>
                                      (case save_ensemble_scores classification_report fs1
                                              y_true ensembler_pred ensemble_file_name of
                                         Inl e \<Rightarrow> Inl e
                                       | Inr fs2 \<Rightarrow>
                                           save_confusion_matrix fs2 y_true ensembler_pred
                                             ensemble_file_name)))
                       else Inr fs)))"

fun run_experiments ::
  "nat \<Rightarrow> (int list \<Rightarrow> int list \<Rightarrow> error + string) \<Rightarrow> files \<Rightarrow> int list \<Rightarrow> error + files" where
  "run_experiments max_bins classification_report fs [] = Inr fs"
| "run_experiments max_bins classification_report fs (experiment # rest) =
     (case run_experiment max_bins classification_report fs experiment of
        Inl e \<Rightarrow> Inl e
      | Inr fs' \<Rightarrow> run_experiments max_bins classification_report fs' rest)"

text \<open>
  A file system with the result files of two models for experiment \<open>1\<close>; the two
  files disagree on the \<open>label\<close> column.
\<close>

definition two_model_files :: files where
  "two_model_files =
     [''a/1/results_no_dataleak.csv'' \<mapsto>
        csv_text [[''Prediction'', ''label''], [''1'', ''0''], [''1'', ''1'']],
      ''b/1/results_no_dataleak.csv'' \<mapsto>
        csv_text [[''Prediction'', ''label''], [''0'', ''1''], [''1'', ''0'']]]"

section \<open>The vote of one column\<close>

lemma argmax_loop_spec:
  assumes "drop i a = vs" "bi < i" "i \<le> length a" "a ! bi = bv"
    "\<forall>j<i. a ! j \<le> bv" "\<forall>j<bi. a ! j < bv"
  shows "argmax_loop vs i bi bv < length a \<and>
         (\<forall>j<length a. a ! j \<le> a ! argmax_loop vs i bi bv) \<and>
         (\<forall>j<argmax_loop vs i bi bv. a ! j < a ! argmax_loop vs i bi bv)"
  using assms
proof (induction vs arbitrary: i bi bv)
  case Nil
  then have "length a \<le> i" by simp
  with Nil show ?case by auto
next
  case (Cons v vs)
  from Cons.prems(1) have il: "i < length a"
    by (metis drop_all list.distinct(1) not_le)
  from Cons.prems(1) il have ai: "a ! i = v"
    by (metis Cons_nth_drop_Suc list.inject)
  from Cons.prems(1) il have dr: "drop (Suc i) a = vs"
    by (metis Cons_nth_drop_Suc list.inject)
  show ?case
  proof (cases "bv < v")
    case True
    have p5: "\<forall>j<Suc i. a ! j \<le> v"
      using Cons.prems(5) True ai by (auto simp: less_Suc_eq)
    have p6: "\<forall>j<i. a ! j < v"
      using Cons.prems(5) True by (meson le_less_trans)
    from Cons.IH[OF dr _ _ ai p5 p6] il True show ?thesis by simp
  next
    case False
    have p5: "\<forall>j<Suc i. a ! j \<le> bv"
      using Cons.prems(5) False ai by (auto simp: less_Suc_eq)
    from Cons.IH[OF dr _ _ Cons.prems(4) p5 Cons.prems(6)] il False Cons.prems(2)
    show ?thesis by simp
  qed
qed

lemma argmax_spec:
  assumes "a \<noteq> []"
  obtains k where "argmax a = Inr k" "k < length a" "\<forall>j<length a. a ! j \<le> a ! k"
    "\<forall>j<k. a ! j < a ! k"
proof -
  from assms obtain v vs where a: "a = v # vs" by (cases a) auto
  have "argmax_loop vs 1 0 v < length a \<and>
         (\<forall>j<length a. a ! j \<le> a ! argmax_loop vs 1 0 v) \<and>
         (\<forall>j<argmax_loop vs 1 0 v. a ! j < a ! argmax_loop vs 1 0 v)"
    by (rule argmax_loop_spec) (auto simp: a)
  then show thesis using that[of "argmax_loop vs 1 0 v"] by (simp add: argmax_def a)
qed

lemma fold_max_Max: "fold max vs v = Max (set (v # vs))"
  by (simp only: Max.set_eq_fold)

lemma bins_limit_bounds: "bins_limit max_bins \<le> max_bins" "bins_limit max_bins < 2 ^ 60"
  by (simp_all add: bins_limit_def)

lemma bincount_fit:
  assumes "x \<noteq> []" "list_all (\<lambda>v. 0 \<le> v) x"
    and "list_all (\<lambda>v. v < int (bins_limit max_bins)) x"
  shows "bincount max_bins True x =
           Inr (map (\<lambda>k. count_list x (int k)) [0..<nat (Max (set x)) + 1])"
proof -
  from assms(1) obtain v vs where x: "x = v # vs" by (cases x) auto
  have nn: "\<not> list_ex (\<lambda>v. v < 0) x"
    using assms(2) by (auto simp: list_all_iff list_ex_iff)
  have m: "fold max vs v = Max (set x)"
    by (simp only: x fold_max_Max)
  have "Max (set x) \<in> set x" using assms(1) by (intro Max_in) auto
  with assms(2,3) have "0 \<le> Max (set x)" "Max (set x) < int (bins_limit max_bins)"
    by (auto simp: list_all_iff)
  then have "nat (Max (set x)) + 1 \<le> bins_limit max_bins" by linarith
  with bins_limit_bounds[of max_bins]
  have "\<not> 2 ^ 60 \<le> nat (Max (set x)) + 1" "\<not> max_bins < nat (Max (set x)) + 1"
    by linarith+
  with nn m show ?thesis
    by (simp add: bincount_def x Let_def del: upt_Suc)
qed

lemma bincount_Inr:
  assumes "bincount max_bins dtype_int64 x = Inr counts"
  shows "dtype_int64" and "list_all (\<lambda>v. 0 \<le> v) x"
    and "list_all (\<lambda>v. v < int (bins_limit max_bins)) x"
    and "x = [] \<longleftrightarrow> counts = []" and "int (length counts) \<le> int (bins_limit max_bins)"
proof -
  from assms show d: "dtype_int64" by (auto simp: bincount_def split: if_splits)
  from assms d have nn: "\<not> list_ex (\<lambda>v. v < 0) x"
    by (auto simp: bincount_def split: if_splits)
  then show p: "list_all (\<lambda>v. 0 \<le> v) x"
    by (auto simp: list_all_iff list_ex_iff not_less)
  have "list_all (\<lambda>v. v < int (bins_limit max_bins)) x \<and> (x = [] \<longleftrightarrow> counts = []) \<and>
        int (length counts) \<le> int (bins_limit max_bins)"
  proof (cases x)
    case Nil
    with assms d nn have "counts = []" by (simp add: bincount_def)
    with Nil show ?thesis by simp
  next
    case (Cons v vs)
    let ?n = "nat (Max (set x)) + 1"
    have m: "fold max vs v = Max (set x)" by (simp only: Cons fold_max_Max)
    from assms d nn Cons m have b: "\<not> 2 ^ 60 \<le> ?n" "\<not> max_bins < ?n"
      and c: "counts = map (\<lambda>k. count_list x (int k)) [0..<?n]"
      by (auto simp: bincount_def Let_def split: if_splits simp del: upt_Suc)
    from b have lim: "?n \<le> bins_limit max_bins" by (simp add: bins_limit_def)
    have "w < int (bins_limit max_bins)" if "w \<in> set x" for w
    proof -
      have "w \<le> Max (set x)" using that by (intro Max_ge) auto
      with lim show ?thesis by linarith
    qed
    then have "list_all (\<lambda>v. v < int (bins_limit max_bins)) x" by (simp add: list_all_iff)
    moreover from c Cons have "x = [] \<longleftrightarrow> counts = []" by (simp del: upt_Suc)
    moreover have "length counts = ?n" by (simp add: c del: upt_Suc)
    with lim have "int (length counts) \<le> int (bins_limit max_bins)" by linarith
    ultimately show ?thesis by blast
  qed
  then show "list_all (\<lambda>v. v < int (bins_limit max_bins)) x"
    and "x = [] \<longleftrightarrow> counts = []" and "int (length counts) \<le> int (bins_limit max_bins)"
    by blast+
qed

lemma bincount_negative:
  assumes "\<exists>v\<in>set x. v < 0"
  shows "bincount max_bins True x = Inl ValueError"
  using assms by (auto simp: bincount_def list_ex_iff)

lemma bincount_other_dtype: "bincount max_bins False x = Inl TypeError"
  by (simp add: bincount_def)

lemma column_vote_spec:
  assumes ne: "x \<noteq> []" and nn: "list_all (\<lambda>v. 0 \<le> v) x"
    and fit: "list_all (\<lambda>v. v < int (bins_limit max_bins)) x"
  obtains v where "column_vote max_bins True x = Inr v" "v \<in> set x"
    "\<forall>w. count_list x w \<le> count_list x v"
    "\<forall>w. count_list x w = count_list x v \<longrightarrow> v \<le> w"
proof -
  define m where "m = Max (set x)"
  define counts where "counts = map (\<lambda>k. count_list x (int k)) [0..<nat m + 1]"
  have fin: "finite (set x)" and nes: "set x \<noteq> {}" using ne by auto
  have m_in: "m \<in> set x" unfolding m_def using Max_in[OF fin nes] .
  have m_ub: "w \<le> m" if "w \<in> set x" for w
    unfolding m_def using Max_ge[OF fin that] .
  have pos: "0 \<le> w" if "w \<in> set x" for w
    using nn that by (auto simp: list_all_iff)
  have bc: "bincount max_bins True x = Inr counts"
    unfolding counts_def m_def by (rule bincount_fit[OF ne nn fit])
  have len: "length counts = nat m + 1" by (simp add: counts_def del: upt_Suc)
  have nth: "counts ! j = count_list x (int j)" if "j < nat m + 1" for j
    using that unfolding counts_def by (simp del: upt_Suc)
  have cne: "counts \<noteq> []" using len by auto
  obtain k where k: "argmax counts = Inr k" "k < length counts"
    "\<forall>j<length counts. counts ! j \<le> counts ! k" "\<forall>j<k. counts ! j < counts ! k"
    using argmax_spec[OF cne] by blast
  have kk: "counts ! k = count_list x (int k)" using k(2) len nth by simp
  have idx: "nat w < nat m + 1 \<and> counts ! nat w = count_list x w" if "w \<in> set x" for w
  proof -
    have "0 \<le> w" "w \<le> m" using pos[OF that] m_ub[OF that] by auto
    then have "nat w < nat m + 1" by linarith
    with nth[OF this] \<open>0 \<le> w\<close> show ?thesis by simp
  qed
  have maxc: "count_list x w \<le> count_list x (int k)" for w
  proof (cases "w \<in> set x")
    case True
    from idx[OF True] k(3) len kk show ?thesis by (metis)
  next
    case False
    then show ?thesis by (simp add: count_list_0_iff)
  qed
  have "count_list x m \<noteq> 0" using m_in by (simp only: count_list_0_iff simp_thms)
  then have "0 < count_list x m" by simp
  with maxc[of m] have kpos: "0 < count_list x (int k)" by linarith
  then have kin: "int k \<in> set x" using count_list_0_iff[of x "int k"] by auto
  have least: "int k \<le> w" if eq: "count_list x w = count_list x (int k)" for w
  proof (rule ccontr)
    assume "\<not> int k \<le> w"
    then have lt: "w < int k" by simp
    from eq kpos have win: "w \<in> set x"
      using count_list_0_iff[of x w] by auto
    from pos[OF win] lt have "nat w < k" by linarith
    with k(4) have "counts ! nat w < counts ! k" by blast
    with idx[OF win] kk eq show False by simp
  qed
  have cv: "column_vote max_bins True x = Inr (int k)"
    by (simp add: column_vote_def bc k(1))
  show thesis
    using that[OF cv kin] maxc least by blast
qed

lemma column_vote_Inr:
  assumes "column_vote max_bins dtype_int64 x = Inr v"
  shows "dtype_int64" and "x \<noteq> []" and "list_all (\<lambda>v. 0 \<le> v) x"
    and "list_all (\<lambda>v. v < int (bins_limit max_bins)) x"
    and "0 \<le> v" and "v < int (bins_limit max_bins)"
proof -
  from assms obtain counts k where bc: "bincount max_bins dtype_int64 x = Inr counts"
    and am: "argmax counts = Inr k" and v: "v = int k"
    by (auto simp: column_vote_def split: sum.splits)
  note b = bincount_Inr[OF bc]
  from am have cne: "counts \<noteq> []" by (auto simp: argmax_def)
  from argmax_spec[OF cne] am have "k < length counts" by auto
  with b(5) v show "v < int (bins_limit max_bins)" by linarith
  from v show "0 \<le> v" by simp
  from b cne show "dtype_int64" "x \<noteq> []" "list_all (\<lambda>v. 0 \<le> v) x"
    "list_all (\<lambda>v. v < int (bins_limit max_bins)) x" by simp_all
qed

lemma column_vote_negative:
  assumes "\<exists>v\<in>set x. v < 0"
  shows "column_vote max_bins True x = Inl ValueError"
  by (simp add: column_vote_def bincount_negative[OF assms])

lemma column_vote_other_dtype: "column_vote max_bins False x = Inl TypeError"
  by (simp add: column_vote_def bincount_other_dtype)

lemma column_vote_fails_on_negative:
  assumes "\<exists>v\<in>set x. v < 0"
  shows "\<exists>e. column_vote max_bins dtype_int64 x = Inl e"
  using column_vote_negative[OF assms] column_vote_other_dtype by (cases dtype_int64) auto


lemma column_vote_empty: "column_vote max_bins dtype_int64 [] \<noteq> Inr v"
  by (simp add: column_vote_def bincount_def argmax_def)

section \<open>The vote over a matrix\<close>

lemma traverse_Cons_Inr:
  "traverse f (x # xs) = Inr zs \<longleftrightarrow>
     (\<exists>y ys. zs = y # ys \<and> f x = Inr y \<and> traverse f xs = Inr ys)"
  by (cases "f x"; cases "traverse f xs") auto

lemma traverse_Inr_iff:
  "traverse f xs = Inr ys \<longleftrightarrow>
     length ys = length xs \<and> (\<forall>i<length xs. f (xs ! i) = Inr (ys ! i))"
proof (induction xs arbitrary: ys)
  case Nil
  then show ?case by auto
next
  case (Cons x xs)
  show ?case
  proof (cases ys)
    case Nil
    then show ?thesis by (simp add: traverse_Cons_Inr del: traverse.simps)
  next
    case c: (Cons y ys')
    have "(\<forall>i<Suc (length xs). f ((x # xs) ! i) = Inr ((y # ys') ! i)) \<longleftrightarrow>
          f x = Inr y \<and> (\<forall>i<length xs. f (xs ! i) = Inr (ys' ! i))"
      by (simp add: All_less_Suc2)
    then show ?thesis
      by (simp add: traverse_Cons_Inr c Cons.IH[of ys'] del: traverse.simps) blast
  qed
qed


lemma traverse_fails:
  assumes "x \<in> set xs" "f x = Inl e"
  shows "\<exists>e'. traverse f xs = Inl e'"
  using assms by (induction xs) (auto split: sum.splits)

lemma length_column: "length (column arr j) = length arr"
  by (simp add: column_def)

lemma set_column:
  assumes "has_shape arr M N" "j < N"
  shows "set (column arr j) \<subseteq> \<Union> (set ` set arr)"
  using assms by (auto simp: column_def has_shape_def list_all_iff)

lemma column_nonneg:
  assumes "has_shape arr M N" "nonneg_entries arr" "j < N"
  shows "list_all (\<lambda>v. 0 \<le> v) (column arr j)"
  using set_column[OF assms(1,3)] assms(2)
  by (auto simp: nonneg_entries_def list_all_iff)

lemma column_fit:
  assumes "has_shape arr M N" "labels_fit max_bins arr" "j < N"
  shows "list_all (\<lambda>v. v < int (bins_limit max_bins)) (column arr j)"
  using set_column[OF assms(1,3)] assms(2)
  by (auto simp: labels_fit_def list_all_iff)

lemma entry_in_column:
  assumes "has_shape arr M N" "row \<in> set arr" "v \<in> set row"
  obtains j where "j < N" "v \<in> set (column arr j)"
proof -
  from assms(3) obtain j where j: "j < length row" "row ! j = v"
    by (auto simp: in_set_conv_nth)
  from assms(1,2) have "length row = N" by (auto simp: has_shape_def list_all_iff)
  moreover have "v \<in> set (column arr j)" using assms(2) j by (auto simp: column_def)
  ultimately show thesis using that j(1) by simp
qed

lemma fit_int64_array:
  assumes "arr \<noteq> []" "nonneg_entries arr" "labels_fit max_bins arr"
  shows "int64_array arr"
proof -
  have "fits_int64 v" if "row \<in> set arr" "v \<in> set row" for row v
  proof -
    from that assms(2,3) have "0 \<le> v" "v < int (bins_limit max_bins)"
      by (auto simp: nonneg_entries_def labels_fit_def list_all_iff)
    moreover have "int (bins_limit max_bins) < 2 ^ 60"
      using bins_limit_bounds(2)[of max_bins] by (metis of_nat_less_iff of_nat_numeral of_nat_power)
    ultimately show ?thesis by (simp add: fits_int64_def)
  qed
  with assms(1) show ?thesis by (simp add: int64_array_def list_all_iff)
qed

lemma majority_voting_columns:
  assumes "has_shape arr M N" "1 \<le> M" "1 \<le> N"
  shows "majority_voting max_bins arr =
           traverse (column_vote max_bins (int64_array arr)) (map (column arr) [0..<N])"
proof -
  from assms obtain row rest where arr: "arr = row # rest" by (cases arr) (auto simp: has_shape_def)
  with assms have "length row = N" by (simp add: has_shape_def)
  with assms(3) arr show ?thesis
    by (auto simp: majority_voting_def apply_along_axis_def)
qed

lemma majority_voting_Inr_iff:
  assumes "has_shape arr M N"
  shows "majority_voting max_bins arr = Inr votes \<longleftrightarrow>
           1 \<le> M \<and> 1 \<le> N \<and> length votes = N \<and>
           (\<forall>i<N. column_vote max_bins (int64_array arr) (column arr i) = Inr (votes ! i))"
proof (cases "1 \<le> M \<and> 1 \<le> N")
  case True
  then show ?thesis
    by (simp add: majority_voting_columns[OF assms] traverse_Inr_iff)
next
  case False
  have "majority_voting max_bins arr \<noteq> Inr votes"
  proof (cases arr)
    case Nil
    then show ?thesis
      using column_vote_empty[of max_bins "int64_array []"]
      by (auto simp: majority_voting_def apply_along_axis_def split: sum.splits)
  next
    case (Cons row rest)
    with assms False have "row = []" by (cases row) (auto simp: has_shape_def)
    with Cons show ?thesis by (simp add: majority_voting_def apply_along_axis_def)
  qed
  with False show ?thesis by auto
qed

lemma column_nonempty:
  assumes "has_shape arr M N" "1 \<le> M"
  shows "column arr i \<noteq> []"
  using assms by (auto simp: column_def has_shape_def)

lemma majority_voting_valid:
  assumes "has_shape arr M N" "1 \<le> M" "1 \<le> N" "nonneg_entries arr" "labels_fit max_bins arr"
  obtains votes where "majority_voting max_bins arr = Inr votes" "length votes = N"
    "\<forall>i<N. column_vote max_bins True (column arr i) = Inr (votes ! i)"
proof -
  have "arr \<noteq> []" using assms(1,2) by (auto simp: has_shape_def)
  from fit_int64_array[OF this assms(4,5)] have dt: "int64_array arr = True" by simp
  have "\<exists>v. column_vote max_bins True (column arr i) = Inr v" if "i < N" for i
    using column_vote_spec[OF column_nonempty[OF assms(1,2)] column_nonneg[OF assms(1,4) that]
        column_fit[OF assms(1,5) that]]
    by metis
  then obtain g where g: "\<forall>i<N. column_vote max_bins True (column arr i) = Inr (g i)" by metis
  have "majority_voting max_bins arr = Inr (map g [0..<N])"
    using g assms(2,3) by (simp add: majority_voting_Inr_iff[OF assms(1)] dt)
  with g that[of "map g [0..<N]"] show thesis by simp
qed

lemma majority_voting_Inl_invalid:
  assumes "has_shape arr M N" "majority_voting max_bins arr = Inl e"
  shows "M = 0 \<or> N = 0 \<or> \<not> nonneg_entries arr \<or> \<not> labels_fit max_bins arr"
proof (rule ccontr)
  assume "\<not> ?thesis"
  then have "1 \<le> M" "1 \<le> N" "nonneg_entries arr" "labels_fit max_bins arr" by auto
  from majority_voting_valid[OF assms(1) this] assms(2) show False by auto
qed

lemma majority_voting_Inr_valid:
  assumes "has_shape arr M N" "majority_voting max_bins arr = Inr votes"
  shows "1 \<le> M" "1 \<le> N" "nonneg_entries arr" "labels_fit max_bins arr" "length votes = N"
    "\<forall>i<N. column_vote max_bins True (column arr i) = Inr (votes ! i)"
proof -
  from assms have a: "1 \<le> M" "1 \<le> N" "length votes = N"
    and c: "\<forall>i<N. column_vote max_bins (int64_array arr) (column arr i) = Inr (votes ! i)"
    by (simp_all add: majority_voting_Inr_iff[OF assms(1)])
  from a show "1 \<le> M" "1 \<le> N" "length votes = N" .
  from c a(2) have "column_vote max_bins (int64_array arr) (column arr 0) = Inr (votes ! 0)"
    by simp
  from column_vote_Inr(1)[OF this] have dt: "int64_array arr = True" by simp
  from c show "\<forall>i<N. column_vote max_bins True (column arr i) = Inr (votes ! i)"
    by (simp add: dt)
  have e: "0 \<le> v \<and> v < int (bins_limit max_bins)" if "row \<in> set arr" "v \<in> set row" for row v
  proof -
    from entry_in_column[OF assms(1) that] obtain j where j: "j < N" "v \<in> set (column arr j)"
      by blast
    from c j(1) have "column_vote max_bins (int64_array arr) (column arr j) = Inr (votes ! j)"
      by simp
    from column_vote_Inr(3,4)[OF this] j(2) show ?thesis by (auto simp: list_all_iff)
  qed
  then show "nonneg_entries arr" by (auto simp: nonneg_entries_def list_all_iff)
  from e show "labels_fit max_bins arr" by (auto simp: labels_fit_def list_all_iff)
qed



lemma column_vote_zero_one:
  assumes "set x = {0, 1}" "length x = 2" "column_vote max_bins True x = Inr v"
  shows "v = 0"
proof -
  from assms(2) obtain a b where x: "x = [a, b]"
    by (cases x; cases "tl x") auto
  with assms(1) have ab: "(a = 0 \<and> b = 1) \<or> (a = 1 \<and> b = 0)"
    by (auto simp: doubleton_eq_iff)
  note r = column_vote_Inr[OF assms(3)]
  from column_vote_spec[OF r(2,3,4)] assms(3) have
    vin: "v \<in> set x" and least: "\<forall>w. count_list x w = count_list x v \<longrightarrow> v \<le> w" by auto
  from ab x have "count_list x 0 = 1" "count_list x 1 = 1" by auto
  moreover from vin assms(1) have "v = 0 \<or> v = 1" by auto
  ultimately have "count_list x 0 = count_list x v" by auto
  with least have "v \<le> 0" by blast
  with \<open>v = 0 \<or> v = 1\<close> show ?thesis by auto
qed

lemma binary_counts:
  fixes x :: "int list"
  assumes "list_all (\<lambda>v. v = 0 \<or> v = 1) x"
  shows "count_list x 0 + count_list x 1 = length x"
  using assms by (induction x) auto

lemma column_binary:
  assumes "has_shape arr M N" "binary_entries arr" "j < N"
  shows "list_all (\<lambda>v. v = 0 \<or> v = 1) (column arr j)"
  using set_column[OF assms(1,3)] assms(2)
  by (auto simp: binary_entries_def list_all_iff)

lemma binary_nonneg: "binary_entries arr \<Longrightarrow> nonneg_entries arr"
  by (fastforce simp: binary_entries_def nonneg_entries_def list_all_iff)

lemma binary_fit:
  assumes "binary_entries arr" "2 \<le> max_bins"
  shows "labels_fit max_bins arr"
proof -
  have "2 \<le> bins_limit max_bins" using assms(2) by (simp add: bins_limit_def)
  then have "(1::int) < int (bins_limit max_bins)" by linarith
  with assms(1) show ?thesis
    by (fastforce simp: binary_entries_def labels_fit_def list_all_iff)
qed

lemma majority_voting_result:
  assumes "majority_voting max_bins arr = Inr votes"
  shows "votes \<noteq> []" and "list_all (\<lambda>v. 0 \<le> v) votes"
    and "list_all (\<lambda>v. v < int (bins_limit max_bins)) votes"
proof -
  from assms obtain row rest where arr: "arr = row # rest"
    using column_vote_empty[of max_bins "int64_array []"]
    by (cases arr) (auto simp: majority_voting_def apply_along_axis_def split: sum.splits)
  with assms have row: "row \<noteq> []"
    by (auto simp: majority_voting_def apply_along_axis_def split: if_splits)
  with assms arr have t: "traverse (column_vote max_bins (int64_array arr))
      (map (column arr) [0..<length row]) = Inr votes"
    by (simp add: majority_voting_def apply_along_axis_def)
  then have len: "length votes = length row"
    and each: "\<forall>i<length row. column_vote max_bins (int64_array arr) (column arr i) = Inr (votes ! i)"
    by (simp_all add: traverse_Inr_iff)
  from len row show "votes \<noteq> []" by auto
  from each len have "\<forall>i<length votes. 0 \<le> votes ! i \<and> votes ! i < int (bins_limit max_bins)"
    using column_vote_Inr(5,6) by metis
  then show "list_all (\<lambda>v. 0 \<le> v) votes"
    and "list_all (\<lambda>v. v < int (bins_limit max_bins)) votes"
    by (simp_all add: list_all_length)
qed

lemma majority_voting_single_row:
  assumes "row \<noteq> []" and "list_all (\<lambda>v. 0 \<le> v) row"
    and "list_all (\<lambda>v. v < int (bins_limit max_bins)) row"
  shows "majority_voting max_bins [row] = Inr row"
proof -
  have sh: "has_shape [row] 1 (length row)" by (simp add: has_shape_def)
  have nn: "nonneg_entries [row]" using assms(2) by (simp add: nonneg_entries_def)
  have fit: "labels_fit max_bins [row]" using assms(3) by (simp add: labels_fit_def)
  have dt: "int64_array [row] = True" using fit_int64_array[OF _ nn fit] by simp
  have "column_vote max_bins True (column [row] i) = Inr (row ! i)" if "i < length row" for i
  proof -
    have col: "column [row] i = [row ! i]" by (simp add: column_def)
    have "list_all (\<lambda>v. 0 \<le> v) [row ! i]" "list_all (\<lambda>v. v < int (bins_limit max_bins)) [row ! i]"
      using assms(2,3) that by (simp_all add: list_all_length)
    from column_vote_spec[OF _ this]
    obtain u where "column_vote max_bins True [row ! i] = Inr u" "u \<in> set [row ! i]" by blast
    then show ?thesis by (simp add: col)
  qed
  moreover have "1 \<le> length row" using assms(1) by (cases row) auto
  ultimately show ?thesis by (simp add: majority_voting_Inr_iff[OF sh] dt)
qed

section \<open>Integers, lines and tables as text\<close>

lemma is_digit_digit_char: "d < 10 \<Longrightarrow> is_digit (digit_char d)"
  by (simp add: is_digit_def digit_char_def)

lemma digit_val_digit_char: "d < 10 \<Longrightarrow> digit_val (digit_char d) = d"
  by (simp add: digit_val_def digit_char_def)

lemma str_nat_digits: "str_nat n \<noteq> [] \<and> list_all is_digit (str_nat n)"
proof (induction n rule: str_nat.induct)
  case (1 n)
  show ?case
  proof (cases "n < 10")
    case True
    then show ?thesis by (simp add: str_nat.simps[of n] is_digit_digit_char)
  next
    case False
    with 1 show ?thesis by (simp add: str_nat.simps[of n] is_digit_digit_char)
  qed
qed

lemma str_nat_value: "fold (\<lambda>c n. 10 * n + digit_val c) (str_nat n) 0 = n"
proof (induction n rule: str_nat.induct)
  case (1 n)
  show ?case
  proof (cases "n < 10")
    case True
    then show ?thesis by (simp add: str_nat.simps[of n] digit_val_digit_char)
  next
    case False
    with 1 show ?thesis by (simp add: str_nat.simps[of n] digit_val_digit_char)
  qed
qed

lemma parse_nat_str_nat: "parse_nat (str_nat n) = Some n"
  using str_nat_digits[of n] by (simp add: parse_nat_def str_nat_value)

lemma is_digit_chars:
  "is_digit c \<Longrightarrow> c \<noteq> CHR ''-'' \<and> c \<noteq> CHR '','' \<and> c \<noteq> newline"
  by (auto simp: is_digit_def newline_def)

lemma str_nat_chars:
  "c \<in> set (str_nat n) \<Longrightarrow> c \<noteq> CHR ''-'' \<and> c \<noteq> CHR '','' \<and> c \<noteq> newline"
  using str_nat_digits[of n] is_digit_chars by (auto simp: list_all_iff)

lemma parse_int_str_int: "parse_int (str_int i) = Some i"
proof (cases "i < 0")
  case True
  then show ?thesis by (simp add: parse_int_def str_int_def parse_nat_str_nat)
next
  case False
  obtain c cs where s: "str_nat (nat i) = c # cs"
    using str_nat_digits[of "nat i"] by (cases "str_nat (nat i)") auto
  then have "c \<noteq> CHR ''-''" using str_nat_chars[of c "nat i"] by simp
  with False s parse_nat_str_nat[of "nat i"] show ?thesis
    by (simp add: parse_int_def str_int_def)
qed

lemma str_int_chars:
  "c \<in> set (str_int i) \<Longrightarrow> c \<noteq> CHR '','' \<and> c \<noteq> newline"
  using str_nat_chars by (auto simp: str_int_def newline_def split: if_splits)

lemma str_int_nonempty: "str_int i \<noteq> []"
  using str_nat_digits by (simp add: str_int_def)

lemma split_on_absent: "sep \<notin> set l \<Longrightarrow> split_on sep l = [l]"
  by (induction l) auto

lemma split_on_append:
  "sep \<notin> set l \<Longrightarrow> split_on sep (l @ sep # rest) = l # split_on sep rest"
  by (induction l) auto

lemma split_on_lines:
  assumes "\<forall>l\<in>set ls. newline \<notin> set l"
  shows "split_on newline (concat (map (\<lambda>l. l @ [newline]) ls)) = ls @ [[]]"
  using assms by (induction ls) (simp_all add: split_on_append)

lemma those_ints_str_int: "those_ints (map str_int vs) = Some vs"
  by (induction vs) (simp_all add: parse_int_str_int)

lemma csv_text_single_column:
  "csv_text (map (\<lambda>f. [f]) ls) = concat (map (\<lambda>l. l @ [newline]) ls)"
  by (simp add: csv_text_def comp_def)

lemma to_csv_predictions:
  "to_csv \<lparr>df_index = None, df_columns = [''prediction''],
           df_rows = map (\<lambda>v. [str_int v]) ensembler_pred\<rparr> False =
   concat (map (\<lambda>l. l @ [newline]) (''prediction'' # map str_int ensembler_pred))"
proof -
  have "[''prediction''] # map (\<lambda>v. [str_int v]) ensembler_pred =
        map (\<lambda>f. [f]) (''prediction'' # map str_int ensembler_pred)"
    by (simp add: comp_def)
  then show ?thesis
    by (simp only: to_csv_def csv_text_single_column DataFrame.simps if_False)
qed

lemma read_csv_single_column:
  assumes "fs path = Some (concat (map (\<lambda>l. l @ [newline]) (name # map str_int vs)))"
    and "name \<noteq> []" and "CHR '','' \<notin> set name" and "newline \<notin> set name"
  shows "read_csv fs path =
           Inr \<lparr>df_index = None, df_columns = [name], df_rows = map (\<lambda>v. [str_int v]) vs\<rparr>"
proof -
  let ?ls = "name # map str_int vs"
  have nl: "\<forall>l\<in>set ?ls. newline \<notin> set l"
    using assms(4) str_int_chars by auto
  have ne: "\<forall>l\<in>set ?ls. l \<noteq> []"
    using assms(2) str_int_nonempty by auto
  have "filter (\<lambda>l. l \<noteq> []) (split_on newline (concat (map (\<lambda>l. l @ [newline]) ?ls))) = ?ls"
    using ne by (simp only: split_on_lines[OF nl] filter_append) (simp add: filter_id_conv)
  moreover have "map (split_on CHR '','') (map str_int vs) = map (\<lambda>v. [str_int v]) vs"
    using str_int_chars by (auto intro!: split_on_absent)
  moreover have "split_on CHR '','' name = [name]"
    using assms(3) by (rule split_on_absent)
  ultimately show ?thesis
    by (simp add: read_csv_def assms(1) Let_def list_ex_iff pad_row_def comp_def)
qed

lemma getitem_values_single_column:
  "getitem_values \<lparr>df_index = None, df_columns = [name], df_rows = map (\<lambda>v. [str_int v]) vs\<rparr> name
     = Inr vs"
  by (simp add: getitem_values_def cell_def comp_def those_ints_str_int)

lemma getitem_values_missing_column:
  "index_of name (df_columns df) = None \<Longrightarrow> getitem_values df name = Inl KeyError"
  by (simp add: getitem_values_def)

section \<open>The confusion matrix and the loading loop\<close>

lemma unique_labels_sorted_list:
  "unique_labels y_true y_pred = sorted_list_of_set (set y_true \<union> set y_pred)"
  by (simp add: unique_labels_def sorted_list_of_set_sort_remdups[symmetric])

lemma length_unique_labels:
  "length (unique_labels y_true y_pred) = card (set y_true \<union> set y_pred)"
  by (simp add: unique_labels_sorted_list)

lemma unique_labels_two:
  assumes "set y_true \<union> set y_pred = {k0, k1}" "k0 < k1"
  shows "unique_labels y_true y_pred = [k0, k1]"
proof -
  have "sorted_list_of_set {k0, k1} = [k0, k1]"
  proof (rule sorted_distinct_set_unique)
    have "finite {k0, k1}" by simp
    then show "set (sorted_list_of_set {k0, k1}) = set [k0, k1]"
      by (simp only: set_sorted_list_of_set) simp
    show "sorted (sorted_list_of_set {k0, k1})" by (rule sorted_sorted_list_of_set)
    show "distinct (sorted_list_of_set {k0, k1})" by (rule distinct_sorted_list_of_set)
  qed (use assms(2) in simp_all)
  then show ?thesis by (simp add: unique_labels_sorted_list assms(1))
qed

lemma save_confusion_matrix_other:
  assumes "card (set y_true \<union> set ensembler_pred) \<noteq> 2"
  shows "save_confusion_matrix fs y_true ensembler_pred name = Inl ValueError"
  using assms
  by (simp add: save_confusion_matrix_def confusion_matrix_def DataFrame_2d_def Let_def
      length_unique_labels)

lemma save_confusion_matrix_two:
  assumes "length y_true = length ensembler_pred"
    and "set y_true \<union> set ensembler_pred = {k0, k1}" and "k0 < k1"
  shows "save_confusion_matrix fs y_true ensembler_pred name =
           Inr (fs(''../ensembler/matrix/'' @ name @ ''_matrix.csv'' \<mapsto>
             csv_text
               [['''', ''Predicted 0'', ''Predicted 1''],
                [''Actual 0'',
                 str_int (int (count_list (zip y_true ensembler_pred) (k0, k0))),
                 str_int (int (count_list (zip y_true ensembler_pred) (k0, k1)))],
                [''Actual 1'',
                 str_int (int (count_list (zip y_true ensembler_pred) (k1, k0))),
                 str_int (int (count_list (zip y_true ensembler_pred) (k1, k1)))]]))"
  by (simp add: save_confusion_matrix_def confusion_matrix_def DataFrame_2d_def Let_def
      unique_labels_two[OF assms(2,3)] assms(1) to_csv_def index_labels_def)

lemma load_models_keeps_ground_truth:
  assumes "load_models fs experiment paths (model_preds, Some y) = Inr (model_preds', y')"
  shows "y' = Some y"
  using assms
  by (induction paths arbitrary: model_preds) (auto simp: Let_def split: sum.splits)

section \<open>The majority vote\<close>

text \<open>The definitions that evaluate a vote on a given matrix.\<close>

lemmas vote_defs =
  majority_voting_def apply_along_axis_def column_def column_vote_def bincount_def argmax_def
  int64_array_def fits_int64_def

text \<open>
  C1, as stated for every matrix without negative entries, fails on the matrix
  \<open>[[2 ^ 62]]\<close>: \<^verbatim>\<open>np.bincount\<close> cannot allocate \<open>2 ^ 62 + 1\<close> bins and the call
  raises instead of returning a vote (here on a machine with room for \<open>2 ^ 32\<close> bins;
  the size of these bins fits no machine).
\<close>

theorem majority_voting_most_frequent_counterexample:
  "majority_voting 4294967296 [[4611686018427387904]] = Inl ValueError"
  by (simp add: vote_defs)

text \<open>
  C1, amended.  On a matrix of shape \<open>(M, N)\<close> with at least one row, at least one
  column, no negative entry and every label below the number of bins that
  \<^verbatim>\<open>np.bincount\<close> can allocate, \<open>majority_voting\<close> returns an array of length \<open>N\<close>;
  its element \<open>i\<close> occurs in column \<open>i\<close> at least as often as any other value, and it is
  the smallest of the values that occur that often.
\<close>

theorem majority_voting_most_frequent:
  assumes "has_shape predictions M N" and "1 \<le> M" and "1 \<le> N"
    and "nonneg_entries predictions" and "labels_fit max_bins predictions"
  shows "\<exists>votes. majority_voting max_bins predictions = Inr votes \<and> length votes = N \<and>
           (\<forall>i<N. (\<forall>w. count_list (column predictions i) w
                           \<le> count_list (column predictions i) (votes ! i)) \<and>
                   (\<forall>w. count_list (column predictions i) w
                           = count_list (column predictions i) (votes ! i) \<longrightarrow> votes ! i \<le> w))"
proof -
  from majority_voting_valid[OF assms] obtain votes where
    v: "majority_voting max_bins predictions = Inr votes" "length votes = N"
      "\<forall>i<N. column_vote max_bins True (column predictions i) = Inr (votes ! i)" by blast
  have "(\<forall>w. count_list (column predictions i) w
                           \<le> count_list (column predictions i) (votes ! i)) \<and>
                   (\<forall>w. count_list (column predictions i) w
                           = count_list (column predictions i) (votes ! i) \<longrightarrow> votes ! i \<le> w)"
    if "i < N" for i
  proof -
    from column_vote_spec[OF column_nonempty[OF assms(1,2)] column_nonneg[OF assms(1,4) that]
        column_fit[OF assms(1,5) that]]
    obtain u where u: "column_vote max_bins True (column predictions i) = Inr u"
      "\<forall>w. count_list (column predictions i) w \<le> count_list (column predictions i) u"
      "\<forall>w. count_list (column predictions i) w = count_list (column predictions i) u \<longrightarrow> u \<le> w"
      by blast
    from u(1) v(3) that have "u = votes ! i" by simp
    with u(2,3) show ?thesis by simp
  qed
  with v(1,2) show ?thesis by blast
qed

theorem majority_voting_most_frequent_witness:
  "has_shape [[0, 1], [1, 1], [0, 2]] 3 2 \<and> (1::nat) \<le> 3 \<and> (1::nat) \<le> 2 \<and>
   nonneg_entries [[0, 1], [1, 1], [0, 2]] \<and> labels_fit 3 [[0, 1], [1, 1], [0, 2]] \<and>
   (\<exists>votes. majority_voting 3 [[0, 1], [1, 1], [0, 2]] = Inr votes \<and> length votes = 2)"
proof -
  have h1: "has_shape [[0, 1], [1, 1], [0, 2]] 3 2" by (simp add: has_shape_def)
  have h2: "(1::nat) \<le> 3" and h3: "(1::nat) \<le> 2" by simp_all
  have h4: "nonneg_entries [[0, 1], [1, 1], [0, 2]]" by (simp add: nonneg_entries_def)
  have h5: "labels_fit 3 [[0, 1], [1, 1], [0, 2]]" by (simp add: labels_fit_def bins_limit_def)
  from majority_voting_most_frequent[OF h1 h2 h3 h4 h5] h1 h4 h5 show ?thesis by auto
qed

text \<open>
  C2.  Whenever \<open>majority_voting\<close> returns a consensus for a matrix, the label it
  selects for a column has the maximal count in that column and is the smallest label
  with the maximal count; in particular the label selected for a column of a matrix of
  two rows that holds the values \<open>0\<close> and \<open>1\<close> is \<open>0\<close>.  It raises only for a
  matrix without rows, without columns, with a negative entry or with a label that
  \<^verbatim>\<open>np.bincount\<close> cannot allocate the bins for.
\<close>

theorem majority_voting_tie_break:
  assumes "has_shape predictions M N"
  shows "case majority_voting max_bins predictions of
           Inl e \<Rightarrow> M = 0 \<or> N = 0 \<or> \<not> nonneg_entries predictions \<or>
                     \<not> labels_fit max_bins predictions
         | Inr votes \<Rightarrow>
             (\<forall>i<N. (\<forall>w. count_list (column predictions i) w
                             \<le> count_list (column predictions i) (votes ! i)) \<and>
                     (\<forall>w. (\<forall>u. count_list (column predictions i) u
                                   \<le> count_list (column predictions i) w) \<longrightarrow> votes ! i \<le> w)) \<and>
             (M = 2 \<longrightarrow> (\<forall>i<N. set (column predictions i) = {0, 1} \<longrightarrow> votes ! i = 0))"
proof (cases "majority_voting max_bins predictions")
  case (Inl e)
  with majority_voting_Inl_invalid[OF assms Inl] show ?thesis by simp
next
  case (Inr votes)
  note v = majority_voting_Inr_valid[OF assms Inr]
  have a: "(\<forall>w. count_list (column predictions i) w
                             \<le> count_list (column predictions i) (votes ! i)) \<and>
           (\<forall>w. (\<forall>u. count_list (column predictions i) u
                                   \<le> count_list (column predictions i) w) \<longrightarrow> votes ! i \<le> w)"
    if "i < N" for i
  proof -
    from column_vote_spec[OF column_nonempty[OF assms v(1)] column_nonneg[OF assms v(3) that]
        column_fit[OF assms v(4) that]]
    obtain u where u: "column_vote max_bins True (column predictions i) = Inr u"
      "\<forall>w. count_list (column predictions i) w \<le> count_list (column predictions i) u"
      "\<forall>w. count_list (column predictions i) w = count_list (column predictions i) u \<longrightarrow> u \<le> w"
      by blast
    from u(1) v(6) that have eq: "u = votes ! i" by simp
    have "votes ! i \<le> w"
      if "\<forall>u. count_list (column predictions i) u \<le> count_list (column predictions i) w" for w
    proof -
      from that u(2) have "count_list (column predictions i) w = count_list (column predictions i) u"
        by (simp add: le_antisym)
      with u(3) eq show ?thesis by simp
    qed
    with u(2) eq show ?thesis by simp
  qed
  have b: "votes ! i = 0" if "M = 2" "i < N" "set (column predictions i) = {0, 1}" for i
  proof -
    have len: "length (column predictions i) = 2"
      using assms that(1) by (simp add: length_column has_shape_def)
    from v(6) that(2) have "column_vote max_bins True (column predictions i) = Inr (votes ! i)"
      by simp
    then show ?thesis by (rule column_vote_zero_one[OF that(3) len])
  qed
  from a b show ?thesis by (simp add: Inr)
qed

theorem majority_voting_tie_break_witness:
  "has_shape [[0, 1], [1, 1]] 2 2 \<and> majority_voting 2 [[0, 1], [1, 1]] = Inr [0, 1] \<and>
   set (column [[0, 1], [1, 1]] 0) = {0, 1} \<and> [0, 1] ! 0 = (0::int)"
proof -
  have h: "has_shape [[0, 1], [1, 1]] 2 2" by (simp add: has_shape_def)
  have m: "majority_voting 2 [[0, 1], [1, 1]] = Inr [0, 1]" by (simp add: vote_defs)
  have c: "set (column [[0, 1], [1, 1]] 0) = {0, 1}" by (simp add: column_def)
  from majority_voting_tie_break[OF h, of 2] h m c show ?thesis by simp
qed

text \<open>
  C5.  In a matrix with an odd number \<open>M\<close> of rows and entries \<open>0\<close> and \<open>1\<close> only,
  no column holds as many \<open>0\<close>s as \<open>1\<close>s, and every element of the result of
  \<open>majority_voting\<close> occurs in more than half of the rows of its column.  The call
  raises only when the matrix has no column, and then there is no element, or when
  there is no room for the two bins of the labels \<open>0\<close> and \<open>1\<close>.
\<close>

theorem majority_voting_odd_binary:
  assumes "has_shape predictions M N" and "odd M" and "binary_entries predictions"
  shows "(\<forall>i<N. count_list (column predictions i) 0 \<noteq> count_list (column predictions i) 1) \<and>
         (case majority_voting max_bins predictions of
            Inl e \<Rightarrow> N = 0 \<or> max_bins < 2
          | Inr votes \<Rightarrow>
              length votes = N \<and>
              (\<forall>i<N. M < 2 * count_list (column predictions i) (votes ! i)))"
proof -
  have M1: "1 \<le> M" using assms(2) by (cases M) auto
  have sum: "count_list (column predictions i) 0 + count_list (column predictions i) 1 = M"
    if "i < N" for i
    using binary_counts[OF column_binary[OF assms(1,3) that]] assms(1)
    by (simp add: length_column has_shape_def)
  have notie: "count_list (column predictions i) 0 \<noteq> count_list (column predictions i) 1"
    if "i < N" for i
  proof
    assume "count_list (column predictions i) 0 = count_list (column predictions i) 1"
    with sum[OF that] have "M = 2 * count_list (column predictions i) 1" by simp
    with assms(2) show False by simp
  qed
  have res: "case majority_voting max_bins predictions of
            Inl e \<Rightarrow> N = 0 \<or> max_bins < 2
          | Inr votes \<Rightarrow>
              length votes = N \<and>
              (\<forall>i<N. M < 2 * count_list (column predictions i) (votes ! i))"
  proof (cases "majority_voting max_bins predictions")
    case (Inl e)
    have "N = 0 \<or> max_bins < 2"
    proof (rule ccontr)
      assume "\<not> (N = 0 \<or> max_bins < 2)"
      then have "1 \<le> N" "2 \<le> max_bins" by auto
      from majority_voting_Inl_invalid[OF assms(1) Inl] M1 \<open>1 \<le> N\<close>
        binary_nonneg[OF assms(3)] binary_fit[OF assms(3) \<open>2 \<le> max_bins\<close>]
      show False by simp
    qed
    then show ?thesis by (simp add: Inl)
  next
    case (Inr votes)
    note v = majority_voting_Inr_valid[OF assms(1) Inr]
    have "M < 2 * count_list (column predictions i) (votes ! i)" if "i < N" for i
    proof -
      let ?x = "column predictions i"
      from column_vote_spec[OF column_nonempty[OF assms(1) v(1)]
          column_nonneg[OF assms(1) v(3) that] column_fit[OF assms(1) v(4) that]]
      obtain u where u: "column_vote max_bins True ?x = Inr u" "u \<in> set ?x"
        "\<forall>w. count_list ?x w \<le> count_list ?x u" by blast
      from u(1) v(6) that have eq: "u = votes ! i" by simp
      from u(2) column_binary[OF assms(1,3) that] have "u = 0 \<or> u = 1"
        by (auto simp: list_all_iff)
      moreover have "count_list ?x 0 \<le> count_list ?x u" "count_list ?x 1 \<le> count_list ?x u"
        using u(3) by auto
      ultimately show ?thesis using sum[OF that] notie[OF that] eq by auto
    qed
    with v(5) show ?thesis by (simp add: Inr)
  qed
  from notie res show ?thesis by blast
qed

theorem majority_voting_odd_binary_witness:
  "has_shape [[0, 1], [1, 1], [0, 0]] 3 2 \<and> odd (3::nat) \<and>
   binary_entries [[0, 1], [1, 1], [0, 0]] \<and>
   majority_voting 2 [[0, 1], [1, 1], [0, 0]] = Inr [0, 1] \<and>
   3 < 2 * count_list (column [[0, 1], [1, 1], [0, 0]] 0) ([0, 1] ! 0) \<and>
   3 < 2 * count_list (column [[0, 1], [1, 1], [0, 0]] 1) ([0, 1] ! 1)"
proof -
  have h1: "has_shape [[0, 1], [1, 1], [0, 0]] 3 2" by (simp add: has_shape_def)
  have h2: "odd (3::nat)" by simp
  have h3: "binary_entries [[0, 1], [1, 1], [0, 0]]" by (simp add: binary_entries_def)
  have m: "majority_voting 2 [[0, 1], [1, 1], [0, 0]] = Inr [0, 1]" by (simp add: vote_defs)
  from majority_voting_odd_binary[OF h1 h2 h3, of 2] h1 h3 m show ?thesis
    by (simp add: column_def)
qed

text \<open>
  C6, as stated for every matrix with identical rows, fails on the single-row matrices
  \<open>[[-1]]\<close>, \<open>[[]]\<close> and \<open>[[2 ^ 63]]\<close>: the call raises instead of returning the row.
\<close>

theorem majority_voting_identical_rows_counterexample:
  "majority_voting 4294967296 [[- 1]] = Inl ValueError \<and>
   majority_voting 4294967296 [[]] = Inl ValueError \<and>
   majority_voting 4294967296 [[9223372036854775808]] = Inl TypeError"
  by (simp add: vote_defs)

text \<open>
  C6, amended.  For a matrix with at least one row and at least one column, all rows
  equal to the same row, no negative entry in that row and every label of it below the
  number of bins that \<^verbatim>\<open>np.bincount\<close> can allocate, \<open>majority_voting\<close> returns the
  row unchanged.  The single-row matrices are the case \<open>M = 1\<close>.
\<close>

theorem majority_voting_identical_rows:
  assumes "has_shape predictions M N" and "1 \<le> M" and "1 \<le> N"
    and "list_all (\<lambda>r. r = row) predictions" and "list_all (\<lambda>v. 0 \<le> v) row"
    and "list_all (\<lambda>v. v < int (bins_limit max_bins)) row"
  shows "majority_voting max_bins predictions = Inr row"
proof -
  have rows: "predictions = replicate M row"
    using assms(1,4) by (auto simp: has_shape_def list_all_iff intro: replicate_eqI)
  have lrow: "length row = N"
    using assms(1,2) rows by (cases M) (auto simp: has_shape_def)
  have nn: "nonneg_entries predictions"
    using assms(5) by (simp add: rows nonneg_entries_def list_all_iff)
  have fit: "labels_fit max_bins predictions"
    using assms(6) by (simp add: rows labels_fit_def list_all_iff)
  have "predictions \<noteq> []" using assms(1,2) by (auto simp: has_shape_def)
  from fit_int64_array[OF this nn fit] have dt: "int64_array predictions = True" by simp
  have "column_vote max_bins True (column predictions i) = Inr (row ! i)" if "i < N" for i
  proof -
    have col: "column predictions i = replicate M (row ! i)"
      by (simp add: rows column_def)
    from column_vote_spec[OF column_nonempty[OF assms(1,2)] column_nonneg[OF assms(1) nn that]
        column_fit[OF assms(1) fit that]]
    obtain u where "column_vote max_bins True (column predictions i) = Inr u"
      "u \<in> set (column predictions i)"
      by blast
    then show ?thesis using assms(2) by (auto simp: col)
  qed
  then show ?thesis
    using assms(2,3) lrow by (simp add: majority_voting_Inr_iff[OF assms(1)] dt)
qed

theorem majority_voting_identical_rows_witness:
  "has_shape [[1, 0, 2]] 1 3 \<and> (1::nat) \<le> 1 \<and> (1::nat) \<le> 3 \<and>
   list_all (\<lambda>r. r = [1, 0, 2]) [[1, 0, 2 :: int]] \<and> list_all (\<lambda>v. 0 \<le> v) [1, 0, 2 :: int] \<and>
   list_all (\<lambda>v. v < int (bins_limit 3)) [1, 0, 2 :: int] \<and>
   majority_voting 3 [[1, 0, 2]] = Inr [1, 0, 2]"
proof -
  have h1: "has_shape [[1, 0, 2]] 1 3" by (simp add: has_shape_def)
  have h2: "(1::nat) \<le> 1" and h3: "(1::nat) \<le> 3" by simp_all
  have h4: "list_all (\<lambda>r. r = [1, 0, 2]) [[1, 0, 2 :: int]]" by simp
  have h5: "list_all (\<lambda>v. 0 \<le> v) [1, 0, 2 :: int]" by simp
  have h6: "list_all (\<lambda>v. v < int (bins_limit 3)) [1, 0, 2 :: int]" by (simp add: bins_limit_def)
  from majority_voting_identical_rows[OF h1 h2 h3 h4 h5 h6] h1 h4 h5 h6 show ?thesis by simp
qed



text \<open>
  C9.  On the matrix \<open>[[0,1,1],[1,1,0],[0,1,1]]\<close> of three models and three samples,
  \<open>majority_voting\<close> returns the consensus \<open>[0,1,1]\<close>, on every machine with room for
  the two bins of the labels \<open>0\<close> and \<open>1\<close>.
\<close>

theorem majority_voting_scenario_3x3:
  assumes "2 \<le> max_bins"
  shows "majority_voting max_bins [[0, 1, 1], [1, 1, 0], [0, 1, 1]] = Inr [0, 1, 1]"
proof -
  have a: "\<not> max_bins < 2" "\<not> max_bins < Suc (Suc 0)" using assms by simp_all
  show ?thesis
    by (simp add: vote_defs a)
qed

theorem majority_voting_scenario_3x3_witness:
  "(2::nat) \<le> 2 \<and> majority_voting 2 [[0, 1, 1], [1, 1, 0], [0, 1, 1]] = Inr [0, 1, 1]"
  using majority_voting_scenario_3x3[of 2] by simp

text \<open>
  C10, as stated for every matrix without negative entries, fails on the matrix
  \<open>[[2 ^ 63 - 1]]\<close>: the number of bins for this label overflows and the call raises
  instead of returning a vote that occurs in the column.
\<close>

theorem majority_voting_votes_occur_counterexample:
  "majority_voting 4294967296 [[9223372036854775807]] = Inl ValueError"
  by (simp add: vote_defs)

text \<open>
  C10, amended.  On a matrix of shape \<open>(M, N)\<close> with at least one row, at least one
  column, no negative entry and every label below the number of bins that
  \<^verbatim>\<open>np.bincount\<close> can allocate, every element \<open>i\<close> of the result of \<open>majority_voting\<close>
  is a value of column \<open>i\<close>, and so it is at most the largest label of that column.
\<close>

theorem majority_voting_votes_occur:
  assumes "has_shape predictions M N" and "1 \<le> M" and "1 \<le> N"
    and "nonneg_entries predictions" and "labels_fit max_bins predictions"
  shows "\<exists>votes. majority_voting max_bins predictions = Inr votes \<and> length votes = N \<and>
           (\<forall>i<N. votes ! i \<in> set (column predictions i) \<and>
                   votes ! i \<le> Max (set (column predictions i)))"
proof -
  from majority_voting_valid[OF assms] obtain votes where
    v: "majority_voting max_bins predictions = Inr votes" "length votes = N"
      "\<forall>i<N. column_vote max_bins True (column predictions i) = Inr (votes ! i)" by blast
  have "votes ! i \<in> set (column predictions i) \<and> votes ! i \<le> Max (set (column predictions i))"
    if "i < N" for i
  proof -
    from column_vote_spec[OF column_nonempty[OF assms(1,2)] column_nonneg[OF assms(1,4) that]
        column_fit[OF assms(1,5) that]]
    obtain u where u: "column_vote max_bins True (column predictions i) = Inr u"
      "u \<in> set (column predictions i)" by blast
    from u(1) v(3) that have "u = votes ! i" by simp
    with u(2) show ?thesis by simp
  qed
  with v(1,2) show ?thesis by blast
qed

theorem majority_voting_votes_occur_witness:
  "has_shape [[0, 3], [2, 3], [2, 1]] 3 2 \<and> (1::nat) \<le> 3 \<and> (1::nat) \<le> 2 \<and>
   nonneg_entries [[0, 3], [2, 3], [2, 1]] \<and> labels_fit 4 [[0, 3], [2, 3], [2, 1]] \<and>
   (\<exists>votes. majority_voting 4 [[0, 3], [2, 3], [2, 1]] = Inr votes \<and> length votes = 2)"
proof -
  have h1: "has_shape [[0, 3], [2, 3], [2, 1]] 3 2" by (simp add: has_shape_def)
  have h2: "(1::nat) \<le> 3" and h3: "(1::nat) \<le> 2" by simp_all
  have h4: "nonneg_entries [[0, 3], [2, 3], [2, 1]]" by (simp add: nonneg_entries_def)
  have h5: "labels_fit 4 [[0, 3], [2, 3], [2, 1]]" by (simp add: labels_fit_def bins_limit_def)
  from majority_voting_votes_occur[OF h1 h2 h3 h4 h5] h1 h4 h5 show ?thesis by auto
qed

section \<open>The files written and read\<close>

text \<open>
  C3, as stated for any number \<open>C\<close> of classes, fails for three classes and for one
  class: the row and column labels of the table are fixed to two, and
  \<^verbatim>\<open>pd.DataFrame\<close> raises ValueError for a matrix of another size, so that no
  file is written.
\<close>

theorem save_confusion_matrix_three_classes_counterexample:
  "save_confusion_matrix Map.empty [0, 1, 2] [0, 1, 2] ''MV_ens_all_models_exp_1'' = Inl ValueError \<and>
   save_confusion_matrix Map.empty [0, 0] [0, 0] ''MV_ens_all_models_exp_1'' = Inl ValueError"
  by (simp add: save_confusion_matrix_def confusion_matrix_def unique_labels_def
      DataFrame_2d_def Let_def)

text \<open>
  C3, amended.  For a ground-truth vector and a consensus vector of the same length
  that hold exactly two distinct labels between them, \<open>save_confusion_matrix\<close> writes
  the CSV table of the \<open>2 \<times> 2\<close> confusion matrix of the two labels in ascending order,
  with the rows labelled \<open>Actual 0\<close>, \<open>Actual 1\<close> and the columns \<open>Predicted 0\<close>,
  \<open>Predicted 1\<close>; with any other number of distinct labels it raises ValueError.
\<close>

theorem save_confusion_matrix_two_classes:
  assumes "length y_true = length ensembler_pred"
  shows "if card (set y_true \<union> set ensembler_pred) = 2
         then \<exists>k0 k1. k0 < k1 \<and> set y_true \<union> set ensembler_pred = {k0, k1} \<and>
                save_confusion_matrix fs y_true ensembler_pred ensemble_file_name =
                  Inr (fs(''../ensembler/matrix/'' @ ensemble_file_name @ ''_matrix.csv'' \<mapsto>
                    csv_text
                      [['''', ''Predicted 0'', ''Predicted 1''],
                       [''Actual 0'',
                        str_int (int (count_list (zip y_true ensembler_pred) (k0, k0))),
                        str_int (int (count_list (zip y_true ensembler_pred) (k0, k1)))],
                       [''Actual 1'',
                        str_int (int (count_list (zip y_true ensembler_pred) (k1, k0))),
                        str_int (int (count_list (zip y_true ensembler_pred) (k1, k1)))]]))
         else save_confusion_matrix fs y_true ensembler_pred ensemble_file_name = Inl ValueError"
proof (cases "card (set y_true \<union> set ensembler_pred) = 2")
  case True
  then obtain a b where ab: "set y_true \<union> set ensembler_pred = {a, b}" "a \<noteq> b"
    by (auto simp: card_2_iff)
  show ?thesis
  proof (cases "a < b")
    case lt: True
    show ?thesis unfolding if_P[OF True]
      by (intro exI[of _ a] exI[of _ b] conjI lt ab(1) save_confusion_matrix_two[OF assms ab(1) lt])
  next
    case False
    with ab(2) have lt: "b < a" by simp
    have ba: "set y_true \<union> set ensembler_pred = {b, a}" using ab(1) by auto
    show ?thesis unfolding if_P[OF True]
      by (intro exI[of _ b] exI[of _ a] conjI lt ba save_confusion_matrix_two[OF assms ba lt])
  qed
next
  case False
  show ?thesis unfolding if_not_P[OF False]
    by (rule save_confusion_matrix_other[OF False])
qed

theorem save_confusion_matrix_two_classes_witness:
  "length [0, 1, 0, 1 :: int] = length [0, 1, 1, 1 :: int] \<and>
   card (set [0, 1, 0, 1 :: int] \<union> set [0, 1, 1, 1]) = 2 \<and>
   save_confusion_matrix Map.empty [0, 1, 0, 1] [0, 1, 1, 1] ''MV_ens_all_models_exp_1'' =
     Inr [''../ensembler/matrix/'' @ ''MV_ens_all_models_exp_1'' @ ''_matrix.csv'' \<mapsto>
           csv_text
             [['''', ''Predicted 0'', ''Predicted 1''],
              [''Actual 0'', ''1'', ''1''],
              [''Actual 1'', ''0'', ''2'']]]"
proof -
  let ?table = "\<lambda>k0 k1 :: int.
      k0 < k1 \<and> set [0, 1, 0, 1] \<union> set [0, 1, 1, 1] = {k0, k1} \<and>
      save_confusion_matrix Map.empty [0, 1, 0, 1] [0, 1, 1, 1] ''MV_ens_all_models_exp_1'' =
      Inr [''../ensembler/matrix/'' @ ''MV_ens_all_models_exp_1'' @ ''_matrix.csv'' \<mapsto>
            csv_text
              [['''', ''Predicted 0'', ''Predicted 1''],
               [''Actual 0'',
                str_int (int (count_list (zip [0, 1, 0, 1] [0, 1, 1, 1]) (k0, k0))),
                str_int (int (count_list (zip [0, 1, 0, 1] [0, 1, 1, 1]) (k0, k1)))],
               [''Actual 1'',
                str_int (int (count_list (zip [0, 1, 0, 1] [0, 1, 1, 1]) (k1, k0))),
                str_int (int (count_list (zip [0, 1, 0, 1] [0, 1, 1, 1]) (k1, k1)))]]]"
  have h: "length [0, 1, 0, 1 :: int] = length [0, 1, 1, 1 :: int]" by simp
  have s: "set [0, 1, 0, 1 :: int] \<union> set [0, 1, 1, 1] = {0, 1}" by auto
  then have c: "card (set [0, 1, 0, 1 :: int] \<union> set [0, 1, 1, 1]) = 2" by simp
  from save_confusion_matrix_two_classes[OF h, of Map.empty "''MV_ens_all_models_exp_1''"]
  have "\<exists>k0 k1. ?table k0 k1" unfolding if_P[OF c] .
  then obtain k0 where "\<exists>k1. ?table k0 k1" ..
  then obtain k1 where t: "?table k0 k1" ..
  from t s have k01: "k0 = 0" "k1 = 1" by (auto simp: doubleton_eq_iff)
  have d: "str_int 0 = ''0''" "str_int 1 = ''1''" "str_int 2 = ''2''" by code_simp+
  from t have "save_confusion_matrix Map.empty [0, 1, 0, 1] [0, 1, 1, 1] ''MV_ens_all_models_exp_1'' =
     Inr [''../ensembler/matrix/'' @ ''MV_ens_all_models_exp_1'' @ ''_matrix.csv'' \<mapsto>
           csv_text
             [['''', ''Predicted 0'', ''Predicted 1''],
              [''Actual 0'', ''1'', ''1''],
              [''Actual 1'', ''0'', ''2'']]]"
    by (simp add: k01 d)
  with h c show ?thesis by (intro conjI)
qed

text \<open>
  C4.  When the loading loop of an experiment succeeds, the ground-truth vector is the
  \<open>label\<close> column of the file of the first path; another file system and other
  later paths give the same vector as long as that first file is the same.
\<close>

theorem ground_truth_from_first_file:
  assumes "load_models fs experiment (path # paths) ([], None) = Inr (model_preds, y_true_loaded)"
  shows "(\<exists>df labels.
            read_csv fs (os_path_join path [str_int experiment, pred_file_name]) = Inr df \<and>
            getitem_values df ''label'' = Inr labels \<and> y_true_loaded = Some labels) \<and>
         (\<forall>fs' paths' model_preds' y_true_loaded'.
            fs' (os_path_join path [str_int experiment, pred_file_name])
              = fs (os_path_join path [str_int experiment, pred_file_name]) \<and>
            load_models fs' experiment (path # paths') ([], None)
              = Inr (model_preds', y_true_loaded') \<longrightarrow>
            y_true_loaded' = y_true_loaded)"
proof -
  let ?file = "os_path_join path [str_int experiment, pred_file_name]"
  have first: "\<exists>df labels. read_csv g ?file = Inr df \<and> getitem_values df ''label'' = Inr labels \<and>
                 y = Some labels"
    if "load_models g experiment (path # ps) ([], None) = Inr (mp, y)" for g ps mp y
  proof -
    from that obtain df predictions labels where
      d: "read_csv g ?file = Inr df" "getitem_values df ''Prediction'' = Inr predictions"
        "getitem_values df ''label'' = Inr labels"
        "load_models g experiment ps ([predictions], Some labels) = Inr (mp, y)"
      by (auto simp: Let_def split: sum.splits)
    from load_models_keeps_ground_truth[OF d(4)] d(1,3) show ?thesis by simp
  qed
  have same: "read_csv fs' ?file = read_csv fs ?file" if "fs' ?file = fs ?file" for fs'
    using that by (simp add: read_csv_def)
  from first[OF assms] obtain df labels where
    a: "read_csv fs ?file = Inr df" "getitem_values df ''label'' = Inr labels"
      "y_true_loaded = Some labels" by blast
  have "y' = y_true_loaded"
    if "fs' ?file = fs ?file" "load_models fs' experiment (path # ps) ([], None) = Inr (mp, y')"
    for fs' ps mp y'
  proof -
    from first[OF that(2)] same[of fs', OF that(1)] a show ?thesis by auto
  qed
  with a show ?thesis by blast
qed

theorem ground_truth_from_first_file_witness:
  "load_models two_model_files 1 [''a'', ''b''] ([], None) = Inr ([[1, 1], [0, 1]], Some [0, 1]) \<and>
   (\<exists>df labels.
      read_csv two_model_files (os_path_join ''a'' [str_int 1, pred_file_name]) = Inr df \<and>
      getitem_values df ''label'' = Inr labels \<and> Some [0, 1] = Some labels)"
proof -
  have h: "load_models two_model_files 1 [''a'', ''b''] ([], None)
             = Inr ([[1, 1], [0, 1]], Some [0, 1])"
    by code_simp
  from ground_truth_from_first_file[OF h] h show ?thesis by blast
qed

text \<open>
  C8.  A consensus vector returned by \<open>majority_voting\<close> that is written with
  \<open>save_ensemble_predictions\<close>, read back from the file and from its column
  \<open>prediction\<close>, and voted on again as a matrix of one row, is returned unchanged.
\<close>

theorem predictions_csv_round_trip:
  assumes "majority_voting max_bins predictions = Inr ensembler_pred"
  shows "\<exists>fs' df reloaded.
           save_ensemble_predictions fs ensembler_pred ensemble_file_name = Inr fs' \<and>
           read_csv fs' (''../ensembler/predictions/'' @ ensemble_file_name @ ''.csv'') = Inr df \<and>
           getitem_values df ''prediction'' = Inr reloaded \<and>
           np_array [reloaded] = Inr [reloaded] \<and>
           majority_voting max_bins [reloaded] = Inr ensembler_pred"
proof -
  let ?path = "''../ensembler/predictions/'' @ ensemble_file_name @ ''.csv''"
  let ?df = "\<lparr>df_index = None, df_columns = [''prediction''],
              df_rows = map (\<lambda>v. [str_int v]) ensembler_pred\<rparr>"
  let ?fs = "fs(?path \<mapsto> to_csv ?df False)"
  have save: "save_ensemble_predictions fs ensembler_pred ensemble_file_name = Inr ?fs"
    by (simp add: save_ensemble_predictions_def DataFrame_1d_def)
  have "?fs ?path = Some (concat (map (\<lambda>l. l @ [newline]) (''prediction'' # map str_int ensembler_pred)))"
    by (simp only: to_csv_predictions fun_upd_same)
  then have read: "read_csv ?fs ?path = Inr ?df"
    by (rule read_csv_single_column) (simp_all add: newline_def)
  have vals: "getitem_values ?df ''prediction'' = Inr ensembler_pred"
    by (rule getitem_values_single_column)
  have arr: "np_array [ensembler_pred] = Inr [ensembler_pred]"
    by (simp add: np_array_def)
  note r = majority_voting_result[OF assms]
  have "majority_voting max_bins [ensembler_pred] = Inr ensembler_pred"
    by (rule majority_voting_single_row[OF r])
  with save read vals arr show ?thesis by blast
qed

theorem predictions_csv_round_trip_witness:
  "majority_voting 2 [[0, 1], [1, 1], [0, 1]] = Inr [0, 1] \<and>
   (\<exists>fs' df reloaded.
      save_ensemble_predictions Map.empty [0, 1] ''MV_ens_all_models_exp_1'' = Inr fs' \<and>
      read_csv fs' (''../ensembler/predictions/'' @ ''MV_ens_all_models_exp_1'' @ ''.csv'') = Inr df \<and>
      getitem_values df ''prediction'' = Inr reloaded \<and>
      np_array [reloaded] = Inr [reloaded] \<and>
      majority_voting 2 [reloaded] = Inr [0, 1])"
proof -
  have h: "majority_voting 2 [[0, 1], [1, 1], [0, 1]] = Inr [0, 1]" by (simp add: vote_defs)
  from predictions_csv_round_trip[OF h, of Map.empty "''MV_ens_all_models_exp_1''"] h
  show ?thesis by blast
qed

end
